theory Spec2Isabelle
  imports Main
begin

section \<open>Python values held in the snapshot and returned by the handlers\<close>

text \<open>
  The snapshot \<^verbatim>\<open>tennis_matches\<close> of \<^verbatim>\<open>main_api.py\<close> is a list of
  dictionaries with string keys; the handlers return dictionaries, a tuple and strings.
  A dictionary is kept as an association list in insertion order (the order in which it
  is serialised); \<^verbatim>\<open>d.get(k)\<close> reads the binding of \<open>k\<close> and gives \<^verbatim>\<open>None\<close>
  when there is none.
\<close>

datatype pyval =
    PyNone
  | PyBool bool
  | PyInt int
  | PyStr string
  | PyList "pyval list"
  | PyTuple "pyval list"
  | PyDict "(string \<times> pyval) list"

type_synonym match = "(string \<times> pyval) list"

definition dict_get :: "match \<Rightarrow> string \<Rightarrow> pyval" where
  "dict_get d k = (case map_of d k of None \<Rightarrow> PyNone | Some v \<Rightarrow> v)"

text \<open>
  \<^verbatim>\<open>match.get("match_id") == match_id\<close> with \<^verbatim>\<open>match_id: str\<close>: a value equals
  a string only when it is that string (\<^verbatim>\<open>None\<close>, numbers and containers never do).
\<close>

definition py_eq_str :: "pyval \<Rightarrow> string \<Rightarrow> bool" where
  "py_eq_str v s = (v = PyStr s)"

section \<open>\<^verbatim>\<open>datetime.now().isoformat()\<close>\<close>

text \<open>
  A naive \<^verbatim>\<open>datetime\<close> is its seven fields. \<^verbatim>\<open>isoformat()\<close> prints
  \<^verbatim>\<open>YYYY-MM-DDTHH:MM:SS\<close>, followed by \<^verbatim>\<open>.ffffff\<close> when the microsecond field
  is not zero; every field is zero-padded to its width.
\<close>

record datetime =
  year :: nat
  month :: nat
  day :: nat
  hour :: nat
  minute :: nat
  second :: nat
  microsecond :: nat

definition digit :: "nat \<Rightarrow> char" where
  "digit d = char_of (48 + d mod 10)"

primrec zpad :: "nat \<Rightarrow> nat \<Rightarrow> string" where
  "zpad 0 n = []"
| "zpad (Suc w) n = zpad w (n div 10) @ [digit n]"

definition isoformat :: "datetime \<Rightarrow> string" where
  "isoformat t =
     zpad 4 (year t) @ ''-'' @ zpad 2 (month t) @ ''-'' @ zpad 2 (day t) @ ''T'' @
     zpad 2 (hour t) @ '':'' @ zpad 2 (minute t) @ '':'' @ zpad 2 (second t) @
     (if microsecond t = 0 then [] else ''.'' @ zpad 6 (microsecond t))"

section \<open>The query handlers\<close>

text \<open>
  \<^verbatim>\<open>get_tennis_matches\<close> reads the clock and the global; both are arguments here
  (\<open>matches\<close> is the value of \<^verbatim>\<open>tennis_matches\<close> that the handler reads).
  Neither handler declares \<^verbatim>\<open>global tennis_matches\<close> or assigns to it, so a handler
  is a function of the snapshot it reads and returns a value only.
\<close>

definition get_tennis_matches :: "datetime \<Rightarrow> match list \<Rightarrow> pyval" where
  "get_tennis_matches now matches =
     PyDict [(''timestamp'', PyStr (isoformat now)),
             (''matches'', PyList (map PyDict matches))]"

text \<open>
  \<^verbatim>\<open>get_match_details\<close>: the \<^verbatim>\<open>for\<close> loop returns at the first entity whose
  \<^verbatim>\<open>match_id\<close> equals the requested one; after the loop the handler returns the pair
  \<^verbatim>\<open>({"error": "Match not found"}, 404)\<close>. On a list of dictionaries nothing in the
  \<^verbatim>\<open>try\<close> block raises, so its \<^verbatim>\<open>except\<close> clause is never entered.
\<close>

definition not_found :: pyval where
  "not_found = PyTuple [PyDict [(''error'', PyStr ''Match not found'')], PyInt 404]"

fun get_match_details :: "string \<Rightarrow> match list \<Rightarrow> pyval" where
  "get_match_details match_id [] = not_found"
| "get_match_details match_id (m # matches) =
     (if py_eq_str (dict_get m ''match_id'') match_id then PyDict m
      else get_match_details match_id matches)"

section \<open>The refresh loop\<close>

text \<open>
  What a call raises, kept as its class name and message: an instance of
  \<^verbatim>\<open>Exception\<close>, or an exception that derives from \<^verbatim>\<open>BaseException\<close> only
  (\<^verbatim>\<open>asyncio.CancelledError\<close>, \<^verbatim>\<open>SystemExit\<close>, \<^verbatim>\<open>KeyboardInterrupt\<close>).
  The handler of the loop is \<^verbatim>\<open>except Exception\<close>: it catches the first kind only.
\<close>

datatype exn = Exception string string | BaseException string string

fun catchable :: "exn \<Rightarrow> bool" where
  "catchable (Exception cls msg) = True"
| "catchable (BaseException cls msg) = False"

text \<open>
  The calls of the loop that can raise, by the names of the source: the three
  constructors, the two \<^verbatim>\<open>get_tennis_data\<close> coroutines and \<^verbatim>\<open>TennisMerger.merge\<close>
  of the package; \<^verbatim>\<open>asyncio.sleep\<close>; and, in the handler,
  \<^verbatim>\<open>logger.error(f"Error in fetch cycle: {e}")\<close>, which formats the exception, and
  \<^verbatim>\<open>traceback.print_exc()\<close>. The \<^verbatim>\<open>logger.info\<close> calls of the \<^verbatim>\<open>try\<close> block log
  constants and the lengths of lists.
\<close>

datatype call =
    BetsapiPrematch
  | RapidInplayOddsFetcher
  | Bets_get_tennis_data
  | Rapid_get_tennis_data
  | TennisMerger
  | Merge
  | Asyncio_sleep
  | Logger_error
  | Print_exc

text \<open>
  What one cycle does to the world outside its local variables, in order: each call
  into the package is entered and then left (by a return or by an exception) before the
  next statement runs, since every coroutine is awaited where it is called; the global is
  assigned; \<^verbatim>\<open>asyncio.sleep\<close> is awaited; the handler is entered.
\<close>

datatype event =
    Cycle_start
  | Invoked call
  | Returned call
  | Raised call exn
  | Store_write "match list"
  | Slept nat
  | Caught exn

text \<open>
  The state is the global \<^verbatim>\<open>tennis_matches\<close> and the history of the run: every
  event, with the value the global had when the event happened. A request served at that
  moment reads that value.
\<close>

record state =
  tennis_matches :: "match list"
  history :: "(event \<times> match list) list"

text \<open>
  The adapters and the merger are not part of \<^verbatim>\<open>main_api.py\<close>: what each call of
  one cycle gives (a value or an exception) is the cycle's input, as is what the sleep of
  60 seconds (\<open>cooldown\<close>), the handler's logging and traceback printing, and the
  handler's sleep of 10 seconds (\<open>backoff\<close>) give. \<open>'r\<close> is the type of a raw
  record.
\<close>

record 'r cycle_env =
  new_betsapi :: "exn + unit"
  new_rapid :: "exn + unit"
  bets_get_tennis_data :: "exn + 'r list"
  rapid_get_tennis_data :: "exn + 'r list"
  new_merger :: "exn + unit"
  merge :: "'r list \<Rightarrow> 'r list \<Rightarrow> exn + match list"
  cooldown :: "exn + unit"
  logger_error :: "exn + unit"
  print_exc :: "exn + unit"
  backoff :: "exn + unit"

type_synonym 'a prog = "state \<Rightarrow> (exn + 'a) \<times> state"

definition emit :: "event list \<Rightarrow> state \<Rightarrow> state" where
  "emit evs s = s\<lparr>history := history s @ map (\<lambda>ev. (ev, tennis_matches s)) evs\<rparr>"

definition bind :: "'a prog \<Rightarrow> ('a \<Rightarrow> 'b prog) \<Rightarrow> 'b prog" where
  "bind m f s = (case m s of (Inl e, s') \<Rightarrow> (Inl e, s') | (Inr x, s') \<Rightarrow> f x s')"

definition invoke :: "call \<Rightarrow> exn + 'a \<Rightarrow> 'a prog" where
  "invoke c outcome s =
     (case outcome of
        Inl e \<Rightarrow> (Inl e, emit [Invoked c, Raised c e] s)
      | Inr x \<Rightarrow> (Inr x, emit [Invoked c, Returned c] s))"

definition assign :: "match list \<Rightarrow> unit prog" where
  "assign v s = (Inr (), emit [Store_write v] (s\<lparr>tennis_matches := v\<rparr>))"

definition sleep :: "nat \<Rightarrow> exn + unit \<Rightarrow> unit prog" where
  "sleep d outcome s =
     (case outcome of
        Inl e \<Rightarrow> (Inl e, emit [Raised Asyncio_sleep e] s)
      | Inr _ \<Rightarrow> (Inr (), emit [Slept d] s))"

definition statement :: "call \<Rightarrow> exn + unit \<Rightarrow> unit prog" where
  "statement c outcome s =
     (case outcome of
        Inl e \<Rightarrow> (Inl e, emit [Raised c e] s)
      | Inr _ \<Rightarrow> (Inr (), s))"

definition enter_handler :: "exn \<Rightarrow> unit prog" where
  "enter_handler e s = (Inr (), emit [Caught e] s)"

definition log_start :: "unit prog" where
  "log_start s = (Inr (), emit [Cycle_start] s)"

text \<open>The \<^verbatim>\<open>try\<close> block of \<^verbatim>\<open>fetch_tennis_data\<close>, statement by statement.\<close>

definition try_block :: "'r cycle_env \<Rightarrow> unit prog" where
  "try_block env =
     bind log_start (\<lambda>_.
     bind (invoke BetsapiPrematch (new_betsapi env)) (\<lambda>_.
     bind (invoke RapidInplayOddsFetcher (new_rapid env)) (\<lambda>_.
     bind (invoke Bets_get_tennis_data (bets_get_tennis_data env)) (\<lambda>bets_data.
     bind (invoke Rapid_get_tennis_data (rapid_get_tennis_data env)) (\<lambda>rapid_data.
     bind (invoke TennisMerger (new_merger env)) (\<lambda>_.
     bind (invoke Merge (merge env bets_data rapid_data)) (\<lambda>merged_data.
     bind (assign merged_data) (\<lambda>_.
     sleep 60 (cooldown env)))))))))"

text \<open>
  The body of the \<^verbatim>\<open>except Exception as e\<close> clause: log the error, print the
  traceback, sleep 10. Its statements are in no \<^verbatim>\<open>try\<close> of their own: what one of
  them raises leaves the clause.
\<close>

definition except_clause :: "'r cycle_env \<Rightarrow> exn \<Rightarrow> unit prog" where
  "except_clause env e =
     bind (enter_handler e) (\<lambda>_.
     bind (statement Logger_error (logger_error env)) (\<lambda>_.
     bind (statement Print_exc (print_exc env)) (\<lambda>_.
     sleep 10 (backoff env))))"

text \<open>
  One iteration of \<^verbatim>\<open>while True\<close>: the \<^verbatim>\<open>try\<close> block, and the clause when the
  block raises an instance of \<^verbatim>\<open>Exception\<close>; any other exception leaves the
  iteration.
\<close>

definition cycle :: "'r cycle_env \<Rightarrow> unit prog" where
  "cycle env s =
     (case try_block env s of
        (Inl e, s') \<Rightarrow> if catchable e then except_clause env e s' else (Inl e, s')
      | (Inr u, s') \<Rightarrow> (Inr u, s'))"

text \<open>
  \<^verbatim>\<open>while True\<close>: the loop has no exit of its own. It is run for as many cycles as
  there are inputs; an exception that leaves a cycle leaves the loop.
\<close>

primrec fetch_tennis_data :: "'r cycle_env list \<Rightarrow> unit prog" where
  "fetch_tennis_data [] s = (Inr (), s)"
| "fetch_tennis_data (env # envs) s =
     (case cycle env s of
        (Inl e, s') \<Rightarrow> (Inl e, s')
      | (Inr _, s') \<Rightarrow> fetch_tennis_data envs s')"

text \<open>The module sets \<^verbatim>\<open>tennis_matches = []\<close> when it is loaded.\<close>

definition initial_state :: state where
  "initial_state = \<lparr>tennis_matches = [], history = []\<rparr>"

section \<open>Observations of a run\<close>

text \<open>
  What a cycle, and a run of the loop, add to the history; the events alone; the delays
  slept and the values assigned to the global, in order.
\<close>

definition cycle_history :: "'r cycle_env \<Rightarrow> state \<Rightarrow> (event \<times> match list) list" where
  "cycle_history env s = drop (length (history s)) (history (snd (cycle env s)))"

definition cycle_events :: "'r cycle_env \<Rightarrow> state \<Rightarrow> event list" where
  "cycle_events env s = map fst (cycle_history env s)"

definition loop_history :: "'r cycle_env list \<Rightarrow> state \<Rightarrow> (event \<times> match list) list" where
  "loop_history envs s = drop (length (history s)) (history (snd (fetch_tennis_data envs s)))"

definition loop_events :: "'r cycle_env list \<Rightarrow> state \<Rightarrow> event list" where
  "loop_events envs s = map fst (loop_history envs s)"

fun sleeps :: "event list \<Rightarrow> nat list" where
  "sleeps [] = []"
| "sleeps (Slept d # evs) = d # sleeps evs"
| "sleeps (ev # evs) = sleeps evs"

fun writes :: "event list \<Rightarrow> match list list" where
  "writes [] = []"
| "writes (Store_write v # evs) = v # writes evs"
| "writes (ev # evs) = writes evs"

text \<open>
  What the calls of the \<^verbatim>\<open>try\<close> block raise, when they raise, are instances of
  \<^verbatim>\<open>Exception\<close> (as the typed errors of the adapters are); and the three statements
  of the handler return.
\<close>

fun expected :: "exn + 'a \<Rightarrow> bool" where
  "expected (Inl e) = catchable e"
| "expected (Inr x) = True"

definition failures_are_exceptions :: "'r cycle_env \<Rightarrow> bool" where
  "failures_are_exceptions env =
     (expected (new_betsapi env) \<and> expected (new_rapid env) \<and>
      expected (bets_get_tennis_data env) \<and> expected (rapid_get_tennis_data env) \<and>
      expected (new_merger env) \<and>
      (case bets_get_tennis_data env of
         Inl _ \<Rightarrow> True
       | Inr bets_data \<Rightarrow>
           (case rapid_get_tennis_data env of
              Inl _ \<Rightarrow> True
            | Inr rapid_data \<Rightarrow> expected (merge env bets_data rapid_data))) \<and>
      expected (cooldown env))"

definition handler_completes :: "'r cycle_env \<Rightarrow> bool" where
  "handler_completes env =
     (\<not> isl (logger_error env) \<and> \<not> isl (print_exc env) \<and> \<not> isl (backoff env))"

text \<open>
  The events of the iteration after its \<^verbatim>\<open>try\<close> block has raised \<open>e\<close>: none when
  \<open>e\<close> is not caught; otherwise those of the handler, up to the statement of it that
  raises, if one does.
\<close>

definition handler_events :: "'r cycle_env \<Rightarrow> exn \<Rightarrow> event list" where
  "handler_events env e =
     (if catchable e then
        Caught e #
        (case logger_error env of
           Inl e' \<Rightarrow> [Raised Logger_error e']
         | Inr _ \<Rightarrow>
             (case print_exc env of
                Inl e' \<Rightarrow> [Raised Print_exc e']
              | Inr _ \<Rightarrow>
                  (case backoff env of
                     Inl e' \<Rightarrow> [Raised Asyncio_sleep e']
                   | Inr _ \<Rightarrow> [Slept 10])))
      else [])"

text \<open>
  \<open>v\<close> is the whole result of the cycle's merge, applied to the whole results of the
  cycle's two fetches.
\<close>

definition complete_merge :: "'r cycle_env \<Rightarrow> match list \<Rightarrow> bool" where
  "complete_merge env v =
     (case bets_get_tennis_data env of
        Inl _ \<Rightarrow> False
      | Inr bets_data \<Rightarrow>
          (case rapid_get_tennis_data env of
             Inl _ \<Rightarrow> False
           | Inr rapid_data \<Rightarrow> merge env bets_data rapid_data = Inr v))"

text \<open>
  Along a history that starts with the global at \<open>v\<close>, the global keeps its value from
  one event to the next, but at an assignment, where it becomes the assigned value.
\<close>

fun changes_only_by_write :: "match list \<Rightarrow> (event \<times> match list) list \<Rightarrow> bool" where
  "changes_only_by_write v [] = True"
| "changes_only_by_write v ((ev, w) # h) =
     ((w = v \<or> ev = Store_write w) \<and> changes_only_by_write w h)"

text \<open>
  The events of a history that starts with the global at \<open>v\<close>, each with the value
  of the global when it happens.
\<close>

fun tagged :: "match list \<Rightarrow> event list \<Rightarrow> (event \<times> match list) list" where
  "tagged v [] = []"
| "tagged v (Store_write w # evs) = (Store_write w, w) # tagged w evs"
| "tagged v (ev # evs) = (ev, v) # tagged v evs"

text \<open>
  Every exception raised is followed at once by the handler's catching that exception and
  sleeping.
\<close>

fun handled :: "event list \<Rightarrow> bool" where
  "handled [] = True"
| "handled (Raised c e # Caught e' # Slept d # evs) = (e' = e \<and> handled evs)"
| "handled (Raised c e # evs) = False"
| "handled (ev # evs) = handled evs"

text \<open>
  The events before the first occurrence of \<open>ev\<close>; and whether call \<open>b\<close> is entered
  while call \<open>a\<close> has been entered and not yet left (\<open>fl\<close>: \<open>a\<close> is in flight).
\<close>

definition before :: "event \<Rightarrow> event list \<Rightarrow> event list" where
  "before ev evs = takeWhile (\<lambda>x. x \<noteq> ev) evs"

fun in_flight :: "call \<Rightarrow> call \<Rightarrow> bool \<Rightarrow> event list \<Rightarrow> bool" where
  "in_flight a b fl [] = False"
| "in_flight a b fl (Invoked c # evs) =
     (if c = a then in_flight a b True evs
      else if c = b \<and> fl then True
      else in_flight a b fl evs)"
| "in_flight a b fl (Returned c # evs) = in_flight a b (fl \<and> c \<noteq> a) evs"
| "in_flight a b fl (Raised c e # evs) = in_flight a b (fl \<and> c \<noteq> a) evs"
| "in_flight a b fl (ev # evs) = in_flight a b fl evs"

definition concurrent :: "call \<Rightarrow> call \<Rightarrow> event list \<Rightarrow> bool" where
  "concurrent a b evs = (in_flight a b False evs \<or> in_flight b a False evs)"

section \<open>The all-matches query as the specification words it\<close>

text \<open>
  The specification's snapshot carries a capture time, and its all-matches query returns
  that time. \<^verbatim>\<open>main_api.py\<close> stores no capture time; this second definition follows
  the specification, to be compared with \<^const>\<open>get_tennis_matches\<close>.
\<close>

record snapshot =
  captured :: datetime
  entities :: "match list"

definition spec_get_matches :: "snapshot \<Rightarrow> pyval" where
  "spec_get_matches snap =
     PyDict [(''timestamp'', PyStr (isoformat (captured snap))),
             (''matches'', PyList (map PyDict (entities snap)))]"

section \<open>Concrete cycles\<close>

text \<open>
  Raw records are numbers here. The merger of these cycles makes one single-source entity
  of every record, the first list's before the second's.
\<close>

definition entity_of :: "string \<Rightarrow> nat \<Rightarrow> match" where
  "entity_of src n =
     [(''match_id'', PyStr (src @ zpad 2 n)), (''provenance'', PyStr (src @ ''-only''))]"

definition pass_through :: "nat list \<Rightarrow> nat list \<Rightarrow> exn + match list" where
  "pass_through a b = Inr (map (entity_of ''A'') a @ map (entity_of ''B'') b)"

definition source_unavailable :: exn where
  "source_unavailable = Exception ''SourceUnavailable'' ''connection refused''"

definition ok_env :: "nat cycle_env" where
  "ok_env = \<lparr>new_betsapi = Inr (), new_rapid = Inr (),
     bets_get_tennis_data = Inr [7], rapid_get_tennis_data = Inr [1, 2, 3],
     new_merger = Inr (), merge = pass_through, cooldown = Inr (),
     logger_error = Inr (), print_exc = Inr (), backoff = Inr ()\<rparr>"

definition partial_env :: "nat cycle_env" where
  "partial_env = ok_env\<lparr>bets_get_tennis_data := Inl source_unavailable\<rparr>"

definition total_env :: "nat cycle_env" where
  "total_env = partial_env\<lparr>rapid_get_tennis_data := Inl source_unavailable\<rparr>"

definition merge_error_env :: "nat cycle_env" where
  "merge_error_env = ok_env\<lparr>merge := (\<lambda>a b. Inl (Exception ''KeyError'' ''start''))\<rparr>"

text \<open>
  A cycle whose BetsAPI fetch is cancelled, and a cycle of total failure whose handler is
  cancelled in its sleep.
\<close>

definition cancelled :: exn where
  "cancelled = BaseException ''CancelledError'' []"

definition cancelled_env :: "nat cycle_env" where
  "cancelled_env = ok_env\<lparr>bets_get_tennis_data := Inl cancelled\<rparr>"

definition interrupted_env :: "nat cycle_env" where
  "interrupted_env = total_env\<lparr>backoff := Inl cancelled\<rparr>"

definition old_snapshot :: "match list" where
  "old_snapshot = [entity_of ''A'' 42]"

definition old_state :: state where
  "old_state = \<lparr>tennis_matches = old_snapshot, history = []\<rparr>"

definition noon :: datetime where
  "noon = \<lparr>year = 2024, month = 6, day = 1, hour = 12, minute = 0, second = 0,
     microsecond = 0\<rparr>"

section \<open>Facts about one cycle\<close>

lemmas prims = bind_def invoke_def assign_def sleep_def statement_def enter_handler_def
  log_start_def emit_def

lemma except_clause_state:
  "catchable e \<Longrightarrow>
     snd (except_clause env e s) =
       s\<lparr>history := history s @ map (\<lambda>ev. (ev, tennis_matches s)) (handler_events env e)\<rparr>"
  by (simp add: except_clause_def prims handler_events_def split: sum.splits)

lemma except_clause_result:
  "fst (except_clause env e s) = Inr () \<longleftrightarrow> handler_completes env"
  by (auto simp add: except_clause_def prims handler_completes_def split: sum.splits)

lemma handler_events_uncaught: "\<not> catchable e \<Longrightarrow> handler_events env e = []"
  by (simp add: handler_events_def)

lemma cycle_events_eq:
  "cycle_events env s =
    Cycle_start # Invoked BetsapiPrematch #
    (case new_betsapi env of
       Inl e \<Rightarrow> Raised BetsapiPrematch e # handler_events env e
     | Inr _ \<Rightarrow> Returned BetsapiPrematch # Invoked RapidInplayOddsFetcher #
    (case new_rapid env of
       Inl e \<Rightarrow> Raised RapidInplayOddsFetcher e # handler_events env e
     | Inr _ \<Rightarrow> Returned RapidInplayOddsFetcher # Invoked Bets_get_tennis_data #
    (case bets_get_tennis_data env of
       Inl e \<Rightarrow> Raised Bets_get_tennis_data e # handler_events env e
     | Inr bets_data \<Rightarrow> Returned Bets_get_tennis_data # Invoked Rapid_get_tennis_data #
    (case rapid_get_tennis_data env of
       Inl e \<Rightarrow> Raised Rapid_get_tennis_data e # handler_events env e
     | Inr rapid_data \<Rightarrow> Returned Rapid_get_tennis_data # Invoked TennisMerger #
    (case new_merger env of
       Inl e \<Rightarrow> Raised TennisMerger e # handler_events env e
     | Inr _ \<Rightarrow> Returned TennisMerger # Invoked Merge #
    (case merge env bets_data rapid_data of
       Inl e \<Rightarrow> Raised Merge e # handler_events env e
     | Inr merged_data \<Rightarrow> Returned Merge # Store_write merged_data #
    (case cooldown env of
       Inl e \<Rightarrow> Raised Asyncio_sleep e # handler_events env e
     | Inr _ \<Rightarrow> [Slept 60])))))))"
  by (simp add: cycle_def try_block_def prims cycle_events_def cycle_history_def
      except_clause_state handler_events_uncaught comp_def split: sum.splits)


lemma handler_events_writes: "writes (handler_events env e) = []"
  by (simp add: handler_events_def split: sum.splits)

lemma handler_events_tagged:
  "tagged v (handler_events env e) = map (\<lambda>ev. (ev, v)) (handler_events env e)"
  by (simp add: handler_events_def split: sum.splits)

lemma handler_events_calls:
  "Invoked c \<notin> set (handler_events env e) \<and> Returned c \<notin> set (handler_events env e)"
  by (simp add: handler_events_def split: sum.splits)

lemma handler_events_in_flight: "\<not> in_flight a b fl (handler_events env e)"
  by (simp add: handler_events_def split: sum.splits)

lemma handler_events_starts: "count_list (handler_events env e) Cycle_start = 0"
  by (simp add: handler_events_def split: sum.splits)

lemma cycle_extends: "history (snd (cycle env s)) = history s @ cycle_history env s"
  by (simp add: cycle_def try_block_def prims cycle_history_def except_clause_state
      split: sum.splits)

lemma cycle_history_tagged:
  "cycle_history env s = tagged (tennis_matches s) (cycle_events env s)"
  unfolding cycle_events_eq
  by (simp add: cycle_def try_block_def prims cycle_history_def except_clause_state
      handler_events_uncaught handler_events_tagged split: sum.splits)

lemma cycle_store:
  "tennis_matches (snd (cycle env s)) =
     (case writes (cycle_events env s) of [] \<Rightarrow> tennis_matches s | v # _ \<Rightarrow> v)"
  unfolding cycle_events_eq
  by (simp add: cycle_def try_block_def prims except_clause_state handler_events_writes
      split: sum.splits)

lemma cycle_writes:
  "v \<in> set (writes (cycle_events env s)) \<Longrightarrow>
     writes (cycle_events env s) = [v] \<and> complete_merge env v"
  unfolding cycle_events_eq
  by (auto simp add: handler_events_writes complete_merge_def split: sum.splits)

lemma tagged_events: "map fst (tagged v evs) = evs"
  by (induction v evs rule: tagged.induct) simp_all

lemma tagged_changes_only_by_write: "changes_only_by_write v (tagged v evs)"
  by (induction v evs rule: tagged.induct) simp_all

lemma tagged_tags: "(ev, w) \<in> set (tagged v evs) \<Longrightarrow> w = v \<or> w \<in> set (writes evs)"
  by (induction v evs rule: tagged.induct) auto

lemma tagged_eq_Nil: "tagged v evs = [] \<longleftrightarrow> evs = []"
  by (induction v evs rule: tagged.induct) simp_all

lemma tagged_last:
  "evs \<noteq> [] \<Longrightarrow>
     snd (last (tagged v evs)) = (if writes evs = [] then v else last (writes evs))"
proof (induction v evs rule: tagged.induct)
  case (1 v)
  then show ?case by simp
next
  case (2 v w evs)
  then show ?case by (cases "evs = []") (simp_all add: tagged_eq_Nil)
qed (case_tac "evs = []"; simp add: tagged_eq_Nil)+

lemma cycle_events_nonempty: "cycle_events env s \<noteq> []"
  unfolding cycle_events_eq by simp

lemma cycle_changes_only_by_write:
  "changes_only_by_write (tennis_matches s) (cycle_history env s)"
  by (simp add: cycle_history_tagged tagged_changes_only_by_write)

lemma cycle_history_nonempty: "cycle_history env s \<noteq> []"
  using cycle_events_nonempty [of env s] by (auto simp add: cycle_events_def)

lemma cycle_last_tag:
  "snd (last (cycle_history env s)) = tennis_matches (snd (cycle env s))"
proof (cases "writes (cycle_events env s)")
  case Nil
  then show ?thesis
    by (simp add: cycle_history_tagged tagged_last cycle_events_nonempty cycle_store)
next
  case (Cons v vs)
  then have "writes (cycle_events env s) = [v]"
    using cycle_writes [of v env s] by simp
  then show ?thesis
    by (simp add: cycle_history_tagged tagged_last cycle_events_nonempty cycle_store)
qed

lemma cycle_tags:
  "(ev, v) \<in> set (cycle_history env s) \<Longrightarrow> v = tennis_matches s \<or> complete_merge env v"
  using tagged_tags [of ev v "tennis_matches s" "cycle_events env s"] cycle_writes [of v env s]
  by (auto simp add: cycle_history_tagged)

lemma cycle_handled:
  "failures_are_exceptions env \<Longrightarrow> handler_completes env \<Longrightarrow> handled (cycle_events env s)"
  unfolding cycle_events_eq
  by (auto simp add: failures_are_exceptions_def handler_completes_def handler_events_def
      split: sum.splits)

lemma cycle_starts_once: "count_list (cycle_events env s) Cycle_start = 1"
  unfolding cycle_events_eq by (simp add: handler_events_starts split: sum.splits)

lemma except_clause_returns:
  "handler_completes env \<Longrightarrow> fst (except_clause env e s) = Inr ()"
  by (simp add: except_clause_result)

lemma cycle_result:
  "fst (cycle env s) = Inl e \<Longrightarrow> \<not> failures_are_exceptions env \<or> \<not> handler_completes env"
  by (auto simp add: cycle_def try_block_def prims failures_are_exceptions_def
      except_clause_returns split: sum.splits if_splits prod.splits)

lemma cycle_returns:
  "failures_are_exceptions env \<Longrightarrow> handler_completes env \<Longrightarrow> fst (cycle env s) = Inr ()"
  using cycle_result [of env s] by (cases "fst (cycle env s)") auto


section \<open>Facts about a run of the loop\<close>

lemma fetch_Cons_returns:
  "fst (cycle env s) = Inr () \<Longrightarrow>
     fetch_tennis_data (env # envs) s = fetch_tennis_data envs (snd (cycle env s))"
  by (cases "cycle env s") simp

lemma fetch_Cons_raises:
  "fst (cycle env s) = Inl e \<Longrightarrow> fetch_tennis_data (env # envs) s = cycle env s"
  by (cases "cycle env s") simp

lemma fetch_Cons:
  "fetch_tennis_data (env # envs) s =
     (if isl (fst (cycle env s)) then cycle env s
      else fetch_tennis_data envs (snd (cycle env s)))"
  by (cases "cycle env s"; cases "fst (cycle env s)") auto

lemma fetch_extends:
  "\<exists>h. history (snd (fetch_tennis_data envs s)) = history s @ h"
proof (induction envs arbitrary: s)
  case Nil
  show ?case by simp
next
  case (Cons env envs)
  from Cons [of "snd (cycle env s)"] cycle_extends [of env s] show ?case
    by (auto simp add: fetch_Cons simp del: fetch_tennis_data.simps(2))
qed

lemma loop_history_extends:
  "history (snd (fetch_tennis_data envs s)) = history s @ loop_history envs s"
  using fetch_extends [of envs s] by (auto simp add: loop_history_def)

lemma loop_history_Nil: "loop_history [] s = []"
  by (simp add: loop_history_def)

lemma loop_history_Cons:
  "loop_history (env # envs) s =
     cycle_history env s @
     (if isl (fst (cycle env s)) then [] else loop_history envs (snd (cycle env s)))"
proof (cases "isl (fst (cycle env s))")
  case True
  then show ?thesis
    by (simp add: loop_history_def cycle_history_def fetch_Cons del: fetch_tennis_data.simps(2))
next
  case False
  then have "history s @ loop_history (env # envs) s =
      history s @ cycle_history env s @ loop_history envs (snd (cycle env s))"
    using loop_history_extends [of "env # envs" s]
      loop_history_extends [of envs "snd (cycle env s)"] cycle_extends [of env s]
    by (simp add: fetch_Cons del: fetch_tennis_data.simps(2))
  with False show ?thesis by simp
qed

lemma loop_events_Cons:
  "loop_events (env # envs) s =
     cycle_events env s @
     (if isl (fst (cycle env s)) then [] else loop_events envs (snd (cycle env s)))"
  by (simp add: loop_events_def cycle_events_def loop_history_Cons)

lemma changes_only_by_write_append:
  "changes_only_by_write v (h @ h') =
     (changes_only_by_write v h \<and>
      changes_only_by_write (if h = [] then v else snd (last h)) h')"
  by (induction v h rule: changes_only_by_write.induct) auto

lemma loop_changes_only_by_write:
  "changes_only_by_write (tennis_matches s) (loop_history envs s)"
proof (induction envs arbitrary: s)
  case Nil
  show ?case by (simp add: loop_history_Nil)
next
  case (Cons env envs)
  show ?case
    using Cons [of "snd (cycle env s)"] cycle_changes_only_by_write [of s env]
    by (simp add: loop_history_Cons changes_only_by_write_append cycle_history_nonempty
        cycle_last_tag)
qed

lemma loop_tags:
  "(ev, v) \<in> set (loop_history envs s) \<Longrightarrow>
     v = tennis_matches s \<or> (\<exists>env \<in> set envs. complete_merge env v)"
proof (induction envs arbitrary: s)
  case Nil
  then show ?case by (simp add: loop_history_Nil)
next
  case (Cons env envs)
  from Cons.prems consider
    (here) "(ev, v) \<in> set (cycle_history env s)"
    | (later) "(ev, v) \<in> set (loop_history envs (snd (cycle env s)))"
    by (auto simp add: loop_history_Cons split: if_splits)
  then show ?case
  proof cases
    case here
    then show ?thesis using cycle_tags [of ev v env s] by auto
  next
    case later
    then have "v = tennis_matches (snd (cycle env s)) \<or> (\<exists>env \<in> set envs. complete_merge env v)"
      by (rule Cons.IH)
    moreover have "tennis_matches (snd (cycle env s)) = tennis_matches s
        \<or> complete_merge env (tennis_matches (snd (cycle env s)))"
      using cycle_tags [of "fst (last (cycle_history env s))" "snd (last (cycle_history env s))" env s]
        cycle_history_nonempty [of env s] cycle_last_tag [of env s]
      by (metis last_in_set prod.collapse)
    ultimately show ?thesis by auto
  qed
qed

lemma loop_history_nonempty: "envs \<noteq> [] \<Longrightarrow> loop_history envs s \<noteq> []"
  by (cases envs) (simp_all add: loop_history_Cons cycle_history_nonempty)

lemma loop_last_tag:
  "tennis_matches (snd (fetch_tennis_data envs s)) =
     (if envs = [] then tennis_matches s else snd (last (loop_history envs s)))"
proof (induction envs arbitrary: s)
  case Nil
  show ?case by simp
next
  case (Cons env envs)
  show ?case
    using Cons [of "snd (cycle env s)"] cycle_history_nonempty [of env s]
      cycle_last_tag [of env s]
    by (simp add: fetch_Cons loop_history_Cons loop_history_Nil loop_history_nonempty
        del: fetch_tennis_data.simps(2))
qed

lemma handled_append: "handled evs \<Longrightarrow> handled evs' \<Longrightarrow> handled (evs @ evs')"
  by (induction evs rule: handled.induct) auto

lemma loop_events_Nil: "loop_events [] s = []"
  by (simp add: loop_events_def loop_history_Nil)

lemma loop_completes:
  "\<forall>env \<in> set envs. failures_are_exceptions env \<and> handler_completes env \<Longrightarrow>
     fst (fetch_tennis_data envs s) = Inr () \<and> handled (loop_events envs s) \<and>
     count_list (loop_events envs s) Cycle_start = length envs"
proof (induction envs arbitrary: s)
  case Nil
  show ?case by (simp add: loop_events_Nil)
next
  case (Cons env envs)
  then have ret: "fst (cycle env s) = Inr ()"
    by (simp add: cycle_returns)
  from Cons.prems have "handled (cycle_events env s)"
    by (simp add: cycle_handled)
  with Cons.IH [of "snd (cycle env s)"] Cons.prems ret show ?case
    by (simp add: fetch_Cons loop_events_Cons handled_append cycle_starts_once
        del: fetch_tennis_data.simps(2))
qed

lemma unwritten_prefix:
  "changes_only_by_write v h \<Longrightarrow> writes (map fst (take k h)) = [] \<Longrightarrow>
     (ev, w) \<in> set (take k h) \<Longrightarrow> w = v"
proof (induction v h arbitrary: k rule: changes_only_by_write.induct)
  case (1 v)
  then show ?case by simp
next
  case (2 v ev' w' h)
  show ?case
  proof (cases k)
    case 0
    with "2.prems" show ?thesis by simp
  next
    case (Suc k')
    with "2.prems" have nw: "\<forall>x. ev' \<noteq> Store_write x"
      by (cases ev') auto
    with "2.prems" have w': "w' = v" by auto
    from "2.prems" Suc nw have rest: "writes (map fst (take k' h)) = []"
      by (cases ev') auto
    from "2.prems" Suc consider "(ev, w) = (ev', w')" | "(ev, w) \<in> set (take k' h)"
      by auto
    then show ?thesis
    proof cases
      case 1
      then show ?thesis using w' by simp
    next
      case 2
      from "2.IH" [OF _ rest 2] "2.prems"(1) w' show ?thesis by simp
    qed
  qed
qed

section \<open>The concrete cycles, evaluated\<close>

lemma ok_env_events:
  "cycle_events ok_env s =
     [Cycle_start, Invoked BetsapiPrematch, Returned BetsapiPrematch,
      Invoked RapidInplayOddsFetcher, Returned RapidInplayOddsFetcher,
      Invoked Bets_get_tennis_data, Returned Bets_get_tennis_data,
      Invoked Rapid_get_tennis_data, Returned Rapid_get_tennis_data,
      Invoked TennisMerger, Returned TennisMerger, Invoked Merge, Returned Merge,
      Store_write [entity_of ''A'' 7, entity_of ''B'' 1, entity_of ''B'' 2, entity_of ''B'' 3],
      Slept 60]"
  by (simp add: cycle_events_eq ok_env_def pass_through_def)

lemma partial_env_events:
  "cycle_events partial_env s =
     [Cycle_start, Invoked BetsapiPrematch, Returned BetsapiPrematch,
      Invoked RapidInplayOddsFetcher, Returned RapidInplayOddsFetcher,
      Invoked Bets_get_tennis_data, Raised Bets_get_tennis_data source_unavailable,
      Caught source_unavailable, Slept 10]"
  by (simp add: cycle_events_eq handler_events_def partial_env_def ok_env_def
      source_unavailable_def)


lemma merge_error_env_events:
  "cycle_events merge_error_env s =
     [Cycle_start, Invoked BetsapiPrematch, Returned BetsapiPrematch,
      Invoked RapidInplayOddsFetcher, Returned RapidInplayOddsFetcher,
      Invoked Bets_get_tennis_data, Returned Bets_get_tennis_data,
      Invoked Rapid_get_tennis_data, Returned Rapid_get_tennis_data,
      Invoked TennisMerger, Returned TennisMerger, Invoked Merge,
      Raised Merge (Exception ''KeyError'' ''start''),
      Caught (Exception ''KeyError'' ''start''), Slept 10]"
  by (simp add: cycle_events_eq handler_events_def merge_error_env_def ok_env_def)

lemma cancelled_env_events:
  "cycle_events cancelled_env s =
     [Cycle_start, Invoked BetsapiPrematch, Returned BetsapiPrematch,
      Invoked RapidInplayOddsFetcher, Returned RapidInplayOddsFetcher,
      Invoked Bets_get_tennis_data, Raised Bets_get_tennis_data cancelled]"
  by (simp add: cycle_events_eq handler_events_def cancelled_env_def ok_env_def cancelled_def)

lemma interrupted_env_events:
  "cycle_events interrupted_env s =
     [Cycle_start, Invoked BetsapiPrematch, Returned BetsapiPrematch,
      Invoked RapidInplayOddsFetcher, Returned RapidInplayOddsFetcher,
      Invoked Bets_get_tennis_data, Raised Bets_get_tennis_data source_unavailable,
      Caught source_unavailable, Raised Asyncio_sleep cancelled]"
  by (simp add: cycle_events_eq handler_events_def interrupted_env_def total_env_def
      partial_env_def ok_env_def source_unavailable_def)

lemma ok_env_expected: "failures_are_exceptions ok_env \<and> handler_completes ok_env"
  by (simp add: failures_are_exceptions_def handler_completes_def ok_env_def
      pass_through_def)

lemma partial_env_expected:
  "failures_are_exceptions partial_env \<and> handler_completes partial_env"
  by (simp add: failures_are_exceptions_def handler_completes_def partial_env_def ok_env_def
      source_unavailable_def)

lemma total_env_expected: "failures_are_exceptions total_env \<and> handler_completes total_env"
  by (simp add: failures_are_exceptions_def handler_completes_def total_env_def
      partial_env_def ok_env_def source_unavailable_def)

lemma merge_error_env_expected:
  "failures_are_exceptions merge_error_env \<and> handler_completes merge_error_env"
  by (simp add: failures_are_exceptions_def handler_completes_def merge_error_env_def
      ok_env_def)

lemma concrete_returns:
  "fst (cycle ok_env s) = Inr ()" "fst (cycle partial_env s) = Inr ()"
  "fst (cycle total_env s) = Inr ()" "fst (cycle merge_error_env s) = Inr ()"
  by (simp_all add: cycle_returns ok_env_expected partial_env_expected total_env_expected
      merge_error_env_expected)

lemma cancelled_env_raises: "fst (cycle cancelled_env s) = Inl cancelled"
  by (simp add: cycle_def try_block_def prims cancelled_env_def ok_env_def cancelled_def)

lemma interrupted_env_raises: "fst (cycle interrupted_env s) = Inl cancelled"
  by (simp add: cycle_def try_block_def except_clause_def prims interrupted_env_def
      total_env_def partial_env_def ok_env_def source_unavailable_def)

lemma single_cycle: "fetch_tennis_data [env] s = cycle env s"
  by (cases "cycle env s"; cases "fst (cycle env s)") auto

section \<open>The query handlers: claims\<close>

text \<open>
  C3, as amended. The all-matches query returns the sequence of match entities that the
  global holds when the request is served, together with the time of the request: the
  \<open>timestamp\<close> field is \<^verbatim>\<open>datetime.now().isoformat()\<close> evaluated in the handler. No
  capture time is stored with the snapshot, so the response carries none.
\<close>

theorem get_tennis_matches_request_time:
  "get_tennis_matches now (tennis_matches s) =
     PyDict [(''timestamp'', PyStr (isoformat now)),
             (''matches'', PyList (map PyDict (tennis_matches s)))]"
  by (simp add: get_tennis_matches_def)

text \<open>
  The claim as stated fails: a snapshot captured at 12:00:00 and served at 12:00:30 is
  returned with the timestamp 12:00:30, where the specification's query returns 12:00:00.
\<close>

theorem timestamp_is_not_capture_time:
  "spec_get_matches \<lparr>captured = noon, entities = old_snapshot\<rparr> =
     PyDict [(''timestamp'', PyStr ''2024-06-01T12:00:00''),
             (''matches'', PyList (map PyDict old_snapshot))] \<and>
   get_tennis_matches (noon\<lparr>second := 30\<rparr>) old_snapshot =
     PyDict [(''timestamp'', PyStr ''2024-06-01T12:00:30''),
             (''matches'', PyList (map PyDict old_snapshot))] \<and>
   get_tennis_matches (noon\<lparr>second := 30\<rparr>) old_snapshot \<noteq>
     spec_get_matches \<lparr>captured = noon, entities = old_snapshot\<rparr>"
proof -
  have at_capture: "isoformat noon = ''2024-06-01T12:00:00''"
    by code_simp
  have at_request: "isoformat (noon\<lparr>second := 30\<rparr>) = ''2024-06-01T12:00:30''"
    by code_simp
  show ?thesis
    by (simp add: spec_get_matches_def get_tennis_matches_def at_capture at_request)
qed



text \<open>
  C10. When several entities of the snapshot carry the requested \<open>match_id\<close>, the
  single-match query returns the first of them in snapshot order: the entity before
  which no entity has that id.
\<close>

theorem get_match_details_first:
  assumes "\<forall>x \<in> set pre. dict_get x ''match_id'' \<noteq> PyStr match_id"
    and "dict_get m ''match_id'' = PyStr match_id"
  shows "get_match_details match_id (pre @ m # post) = PyDict m"
  using assms by (induction pre) (simp_all add: py_eq_str_def)

theorem get_match_details_first_witness:
  "list_all (\<lambda>x. dict_get x ''match_id'' \<noteq> PyStr ''B02'') [entity_of ''A'' 7] \<and>
   dict_get [(''match_id'', PyStr ''B02''), (''seen'', PyInt 1)] ''match_id'' = PyStr ''B02'' \<and>
   get_match_details ''B02''
     ([entity_of ''A'' 7] @ [(''match_id'', PyStr ''B02''), (''seen'', PyInt 1)] #
        [[(''match_id'', PyStr ''B02''), (''seen'', PyInt 2)]]) =
     PyDict [(''match_id'', PyStr ''B02''), (''seen'', PyInt 1)]"
proof -
  have others: "list_all (\<lambda>x. dict_get x ''match_id'' \<noteq> PyStr ''B02'') [entity_of ''A'' 7]"
    by code_simp
  have first: "dict_get [(''match_id'', PyStr ''B02''), (''seen'', PyInt 1)] ''match_id'' =
      PyStr ''B02''"
    by code_simp
  from others have "\<forall>x \<in> set [entity_of ''A'' 7]. dict_get x ''match_id'' \<noteq> PyStr ''B02''"
    by (simp only: list_all_iff)
  from get_match_details_first [OF this first] others first show ?thesis by blast
qed

section \<open>The refresh loop: claims\<close>

text \<open>
  C1, as amended. A cycle in which exactly one of the two adapter fetches fails is
  abandoned like any other failed cycle: the merger is never invoked and nothing is
  assigned to the global, which keeps the previously published snapshot. When what the
  cycle's calls raise are instances of \<^verbatim>\<open>Exception\<close> and the handler's own statements
  return, the exception is caught, the handler sleeps the 10 second backoff, with which
  the cycle ends, and the loop runs the next cycle in full from the state the abandoned
  cycle has left.
\<close>

theorem one_adapter_failure_abandons_cycle:
  assumes "isl (bets_get_tennis_data env) \<noteq> isl (rapid_get_tennis_data env)"
  shows "tennis_matches (snd (cycle env s)) = tennis_matches s \<and>
    writes (cycle_events env s) = [] \<and>
    Invoked Merge \<notin> set (cycle_events env s) \<and>
    (failures_are_exceptions env \<and> handler_completes env \<longrightarrow>
       fst (cycle env s) = Inr () \<and>
       handled (cycle_events env s) \<and>
       sleeps (cycle_events env s) = [10] \<and>
       last (cycle_events env s) = Slept 10 \<and>
       fetch_tennis_data [env, env'] s = cycle env' (snd (cycle env s)) \<and>
       (\<exists>rest. loop_events (env # env' # envs) s =
          cycle_events env s @ cycle_events env' (snd (cycle env s)) @ rest))"
proof -
  from assms have quiet: "writes (cycle_events env s) = [] \<and>
      Invoked Merge \<notin> set (cycle_events env s)"
    unfolding cycle_events_eq
    by (auto simp add: handler_events_writes handler_events_calls split: sum.splits)
  then have kept: "tennis_matches (snd (cycle env s)) = tennis_matches s"
    by (simp add: cycle_store)
  have caught: "fst (cycle env s) = Inr () \<and> handled (cycle_events env s) \<and>
      sleeps (cycle_events env s) = [10] \<and> last (cycle_events env s) = Slept 10 \<and>
      fetch_tennis_data [env, env'] s = cycle env' (snd (cycle env s)) \<and>
      (\<exists>rest. loop_events (env # env' # envs) s =
         cycle_events env s @ cycle_events env' (snd (cycle env s)) @ rest)"
    if expected: "failures_are_exceptions env" "handler_completes env"
  proof -
    from expected have ret: "fst (cycle env s) = Inr ()"
      by (rule cycle_returns)
    from assms expected have backoff: "sleeps (cycle_events env s) = [10] \<and>
        last (cycle_events env s) = Slept 10"
      unfolding cycle_events_eq
      by (auto simp add: failures_are_exceptions_def handler_completes_def handler_events_def
          split: sum.splits)
    from ret have next_cycle: "fetch_tennis_data [env, env'] s = cycle env' (snd (cycle env s))"
      by (simp add: fetch_Cons_returns single_cycle del: fetch_tennis_data.simps(2))
    from ret have "loop_events (env # env' # envs) s =
        cycle_events env s @ cycle_events env' (snd (cycle env s)) @
        (if isl (fst (cycle env' (snd (cycle env s)))) then []
         else loop_events envs (snd (cycle env' (snd (cycle env s)))))"
      by (simp add: loop_events_Cons)
    then have "\<exists>rest. loop_events (env # env' # envs) s =
        cycle_events env s @ cycle_events env' (snd (cycle env s)) @ rest"
      by blast
    with ret backoff next_cycle expected show ?thesis
      by (simp add: cycle_handled)
  qed
  from quiet kept caught show ?thesis by blast
qed

theorem one_adapter_failure_abandons_cycle_witness:
  "isl (bets_get_tennis_data partial_env) \<noteq> isl (rapid_get_tennis_data partial_env) \<and>
   failures_are_exceptions partial_env \<and> handler_completes partial_env \<and>
   tennis_matches (snd (cycle partial_env old_state)) = old_snapshot \<and>
   writes (cycle_events partial_env old_state) = [] \<and>
   Invoked Merge \<notin> set (cycle_events partial_env old_state) \<and>
   fst (cycle partial_env old_state) = Inr () \<and>
   sleeps (cycle_events partial_env old_state) = [10] \<and>
   last (cycle_events partial_env old_state) = Slept 10 \<and>
   fetch_tennis_data [partial_env, ok_env] old_state =
     cycle ok_env (snd (cycle partial_env old_state)) \<and>
   loop_events [partial_env, ok_env] old_state =
     [Cycle_start, Invoked BetsapiPrematch, Returned BetsapiPrematch,
      Invoked RapidInplayOddsFetcher, Returned RapidInplayOddsFetcher,
      Invoked Bets_get_tennis_data, Raised Bets_get_tennis_data source_unavailable,
      Caught source_unavailable, Slept 10,
      Cycle_start, Invoked BetsapiPrematch, Returned BetsapiPrematch,
      Invoked RapidInplayOddsFetcher, Returned RapidInplayOddsFetcher,
      Invoked Bets_get_tennis_data, Returned Bets_get_tennis_data,
      Invoked Rapid_get_tennis_data, Returned Rapid_get_tennis_data,
      Invoked TennisMerger, Returned TennisMerger, Invoked Merge, Returned Merge,
      Store_write [entity_of ''A'' 7, entity_of ''B'' 1, entity_of ''B'' 2, entity_of ''B'' 3],
      Slept 60] \<and>
   tennis_matches (snd (fetch_tennis_data [partial_env, ok_env] old_state)) =
     [entity_of ''A'' 7, entity_of ''B'' 1, entity_of ''B'' 2, entity_of ''B'' 3]"
proof -
  have one: "isl (bets_get_tennis_data partial_env) \<noteq> isl (rapid_get_tennis_data partial_env)"
    by (simp add: partial_env_def ok_env_def)
  have old: "tennis_matches old_state = old_snapshot"
    by (simp add: old_state_def)
  have run: "loop_events [partial_env, ok_env] old_state =
      cycle_events partial_env old_state @
      cycle_events ok_env (snd (cycle partial_env old_state))"
    by (simp add: loop_events_Cons loop_events_Nil concrete_returns)
  from one_adapter_failure_abandons_cycle [OF one, of old_state ok_env "[]"]
    partial_env_expected
  have abandoned: "tennis_matches (snd (cycle partial_env old_state)) = old_snapshot \<and>
      writes (cycle_events partial_env old_state) = [] \<and>
      Invoked Merge \<notin> set (cycle_events partial_env old_state) \<and>
      fst (cycle partial_env old_state) = Inr () \<and>
      sleeps (cycle_events partial_env old_state) = [10] \<and>
      last (cycle_events partial_env old_state) = Slept 10 \<and>
      fetch_tennis_data [partial_env, ok_env] old_state =
        cycle ok_env (snd (cycle partial_env old_state))"
    unfolding old by blast
  then have "tennis_matches (snd (fetch_tennis_data [partial_env, ok_env] old_state)) =
      [entity_of ''A'' 7, entity_of ''B'' 1, entity_of ''B'' 2, entity_of ''B'' 3]"
    by (simp add: cycle_store ok_env_events)
  with one partial_env_expected abandoned run show ?thesis
    by (simp add: partial_env_events ok_env_events)
qed

text \<open>
  The claim as stated fails: BetsAPI's fetch raises and RapidAPI's would return three
  records, which the merger would turn into three single-source entities when merged
  against the empty list; the cycle publishes none of them and the old snapshot stays.
\<close>

theorem partial_failure_publishes_nothing:
  "merge partial_env [] [1, 2, 3] =
     Inr [entity_of ''B'' 1, entity_of ''B'' 2, entity_of ''B'' 3] \<and>
   tennis_matches old_state = old_snapshot \<and>
   tennis_matches (snd (cycle partial_env old_state)) = old_snapshot \<and>
   old_snapshot \<noteq> [entity_of ''B'' 1, entity_of ''B'' 2, entity_of ''B'' 3] \<and>
   cycle_events partial_env old_state =
     [Cycle_start, Invoked BetsapiPrematch, Returned BetsapiPrematch,
      Invoked RapidInplayOddsFetcher, Returned RapidInplayOddsFetcher,
      Invoked Bets_get_tennis_data, Raised Bets_get_tennis_data source_unavailable,
      Caught source_unavailable, Slept 10]"
proof -
  have degraded: "merge partial_env [] [1, 2, 3] =
      Inr [entity_of ''B'' 1, entity_of ''B'' 2, entity_of ''B'' 3]"
    by (simp add: partial_env_def ok_env_def pass_through_def)
  have old: "tennis_matches old_state = old_snapshot"
    by (simp add: old_state_def)
  have kept: "tennis_matches (snd (cycle partial_env old_state)) = old_snapshot"
    by (simp add: cycle_store partial_env_events old)
  have differs: "old_snapshot \<noteq> [entity_of ''B'' 1, entity_of ''B'' 2, entity_of ''B'' 3]"
    by (simp add: old_snapshot_def)
  from degraded old kept differs partial_env_events [of old_state] show ?thesis
    by blast
qed



text \<open>
  C4. Along every run of the loop the global changes only at an assignment of the loop,
  where it becomes the assigned value at once; every value it ever holds is the value it
  had before the run or the whole result of one cycle's merge applied to the whole results
  of that cycle's two fetches; and a cycle assigns at most once. The handlers are functions
  of the value they read (see \<^const>\<open>get_tennis_matches\<close> and
  \<^const>\<open>get_match_details\<close>), so the loop is the only writer. The assignment of the global
  is one step of the model, as the rebinding of a module global is in the interpreter.
\<close>

theorem publication_is_whole_and_single:
  "changes_only_by_write (tennis_matches s) (loop_history envs s) \<and>
   (\<forall>(ev, v) \<in> set (loop_history envs s).
      v = tennis_matches s \<or> (\<exists>env \<in> set envs. complete_merge env v)) \<and>
   (tennis_matches (snd (fetch_tennis_data envs s)) = tennis_matches s \<or>
    (\<exists>env \<in> set envs. complete_merge env (tennis_matches (snd (fetch_tennis_data envs s))))) \<and>
   length (writes (cycle_events env s')) \<le> 1"
proof -
  have tags: "\<forall>(ev, v) \<in> set (loop_history envs s).
      v = tennis_matches s \<or> (\<exists>env \<in> set envs. complete_merge env v)"
    using loop_tags [of _ _ envs s] by auto
  have final: "tennis_matches (snd (fetch_tennis_data envs s)) = tennis_matches s \<or>
    (\<exists>env \<in> set envs. complete_merge env (tennis_matches (snd (fetch_tennis_data envs s))))"
  proof (cases "envs = []")
    case True
    then show ?thesis by simp
  next
    case False
    then have "last (loop_history envs s) \<in> set (loop_history envs s)"
      by (simp add: loop_history_nonempty)
    then have "(fst (last (loop_history envs s)), snd (last (loop_history envs s)))
        \<in> set (loop_history envs s)"
      by simp
    from loop_tags [OF this] False show ?thesis
      by (simp add: loop_last_tag)
  qed
  have once: "length (writes (cycle_events env s')) \<le> 1"
    unfolding cycle_events_eq by (simp add: handler_events_writes split: sum.splits)
  from tags final once loop_changes_only_by_write [of s envs] show ?thesis by blast
qed

theorem publication_is_whole_and_single_witness:
  "changes_only_by_write old_snapshot
     (loop_history [partial_env, ok_env, merge_error_env] old_state) \<and>
   loop_history [partial_env, ok_env, merge_error_env] old_state \<noteq> [] \<and>
   list_all (\<lambda>(ev, v). v = old_snapshot \<or>
       list_ex (\<lambda>env. complete_merge env v) [partial_env, ok_env, merge_error_env])
     (loop_history [partial_env, ok_env, merge_error_env] old_state) \<and>
   tennis_matches (snd (fetch_tennis_data [partial_env, ok_env, merge_error_env] old_state)) =
     [entity_of ''A'' 7, entity_of ''B'' 1, entity_of ''B'' 2, entity_of ''B'' 3] \<and>
   complete_merge ok_env
     [entity_of ''A'' 7, entity_of ''B'' 1, entity_of ''B'' 2, entity_of ''B'' 3] \<and>
   length (writes (cycle_events ok_env old_state)) = 1"
proof -
  have old: "tennis_matches old_state = old_snapshot"
    by (simp add: old_state_def)
  have nonempty: "loop_history [partial_env, ok_env, merge_error_env] old_state \<noteq> []"
    by (simp add: loop_history_nonempty)
  have final: "tennis_matches
      (snd (fetch_tennis_data [partial_env, ok_env, merge_error_env] old_state)) =
     [entity_of ''A'' 7, entity_of ''B'' 1, entity_of ''B'' 2, entity_of ''B'' 3]"
    by (simp add: fetch_Cons concrete_returns cycle_store ok_env_events partial_env_events
        merge_error_env_events
        del: fetch_tennis_data.simps(2))
  have whole: "complete_merge ok_env
     [entity_of ''A'' 7, entity_of ''B'' 1, entity_of ''B'' 2, entity_of ''B'' 3]"
    by (simp add: complete_merge_def ok_env_def pass_through_def)
  have once: "length (writes (cycle_events ok_env old_state)) = 1"
    by (simp add: ok_env_events)
  from publication_is_whole_and_single
    [of old_state "[partial_env, ok_env, merge_error_env]" ok_env old_state]
  have "changes_only_by_write old_snapshot
     (loop_history [partial_env, ok_env, merge_error_env] old_state) \<and>
   list_all (\<lambda>(ev, v). v = old_snapshot \<or>
       list_ex (\<lambda>env. complete_merge env v) [partial_env, ok_env, merge_error_env])
     (loop_history [partial_env, ok_env, merge_error_env] old_state)"
    unfolding list_all_iff list_ex_iff old by blast
  with nonempty final whole once show ?thesis by blast
qed

text \<open>
  C5, as amended. Every exception raised in the \<^verbatim>\<open>try\<close> block of a cycle that is an
  instance of \<^verbatim>\<open>Exception\<close> is caught at the cycle boundary, and when the handler's own
  statements (logging the error, printing the traceback, the sleep of 10 seconds) return,
  the loop proceeds to another cycle: in a run whose cycles raise instances of
  \<^verbatim>\<open>Exception\<close> only and whose handlers return, no exception leaves the loop, every
  exception raised is followed by its being caught and by the backoff sleep, and one cycle
  is started for every input. An exception leaves a cycle, and with it the loop, only when
  it is not an instance of \<^verbatim>\<open>Exception\<close> or when a statement of the handler raises.
\<close>

theorem refresh_loop_catches_exceptions:
  assumes "\<forall>env \<in> set envs. failures_are_exceptions env \<and> handler_completes env"
  shows "fst (fetch_tennis_data envs s) = Inr () \<and>
    handled (loop_events envs s) \<and>
    count_list (loop_events envs s) Cycle_start = length envs \<and>
    (fst (cycle env s') = Inl e \<longrightarrow>
       \<not> failures_are_exceptions env \<or> \<not> handler_completes env)"
  using loop_completes [OF assms, of s] cycle_result [of env s' e] by blast

theorem refresh_loop_catches_exceptions_witness:
  "list_all (\<lambda>env. failures_are_exceptions env \<and> handler_completes env)
     [partial_env, total_env, merge_error_env, ok_env] \<and>
   fst (fetch_tennis_data [partial_env, total_env, merge_error_env, ok_env] initial_state) =
     Inr () \<and>
   handled (loop_events [partial_env, total_env, merge_error_env, ok_env] initial_state) \<and>
   count_list (loop_events [partial_env, total_env, merge_error_env, ok_env] initial_state)
     Cycle_start = 4 \<and>
   Raised Bets_get_tennis_data source_unavailable
     \<in> set (loop_events [partial_env, total_env, merge_error_env, ok_env] initial_state)"
proof -
  have expected: "\<forall>env \<in> set [partial_env, total_env, merge_error_env, ok_env].
      failures_are_exceptions env \<and> handler_completes env"
    by (simp add: ok_env_expected partial_env_expected total_env_expected
        merge_error_env_expected)
  have raised: "Raised Bets_get_tennis_data source_unavailable
     \<in> set (loop_events [partial_env, total_env, merge_error_env, ok_env] initial_state)"
    by (simp add: loop_events_Cons partial_env_events)
  have four: "length [partial_env, total_env, merge_error_env, ok_env] = 4"
    by simp
  from refresh_loop_catches_exceptions [OF expected, of initial_state] expected raised four
  show ?thesis
    unfolding list_all_iff by (simp only:) blast
qed

text \<open>
  The claim as stated fails. A cycle whose BetsAPI fetch raises
  \<^verbatim>\<open>asyncio.CancelledError\<close>, which is not an instance of \<^verbatim>\<open>Exception\<close>, is not
  caught: the exception leaves the loop, and the cycle that would follow is never started.
  So does the cancellation of the handler's own sleep, after an adapter error has been
  caught.
\<close>

theorem cancellation_leaves_the_loop:
  "fst (fetch_tennis_data [cancelled_env, ok_env] old_state) = Inl cancelled \<and>
   loop_events [cancelled_env, ok_env] old_state =
     [Cycle_start, Invoked BetsapiPrematch, Returned BetsapiPrematch,
      Invoked RapidInplayOddsFetcher, Returned RapidInplayOddsFetcher,
      Invoked Bets_get_tennis_data, Raised Bets_get_tennis_data cancelled] \<and>
   count_list (loop_events [cancelled_env, ok_env] old_state) Cycle_start = 1 \<and>
   fst (fetch_tennis_data [interrupted_env, ok_env] old_state) = Inl cancelled \<and>
   loop_events [interrupted_env, ok_env] old_state =
     [Cycle_start, Invoked BetsapiPrematch, Returned BetsapiPrematch,
      Invoked RapidInplayOddsFetcher, Returned RapidInplayOddsFetcher,
      Invoked Bets_get_tennis_data, Raised Bets_get_tennis_data source_unavailable,
      Caught source_unavailable, Raised Asyncio_sleep cancelled] \<and>
   count_list (loop_events [interrupted_env, ok_env] old_state) Cycle_start = 1"
proof -
  have left: "fst (fetch_tennis_data [cancelled_env, ok_env] old_state) = Inl cancelled"
    by (simp add: fetch_Cons cancelled_env_raises del: fetch_tennis_data.simps(2))
  have events: "loop_events [cancelled_env, ok_env] old_state =
      cycle_events cancelled_env old_state"
    by (simp add: loop_events_Cons cancelled_env_raises)
  have left': "fst (fetch_tennis_data [interrupted_env, ok_env] old_state) = Inl cancelled"
    by (simp add: fetch_Cons interrupted_env_raises del: fetch_tennis_data.simps(2))
  have events': "loop_events [interrupted_env, ok_env] old_state =
      cycle_events interrupted_env old_state"
    by (simp add: loop_events_Cons interrupted_env_raises)
  from left events left' events' show ?thesis
    by (simp add: cancelled_env_events interrupted_env_events)
qed

text \<open>
  C8, as amended. In every cycle the two fetches run one after the other, never
  concurrently: RapidAPI's fetch is invoked only after BetsAPI's has returned, and not at
  all when BetsAPI's has raised; the merge is invoked only after both fetches have
  returned.
\<close>

theorem fetches_run_one_after_the_other:
  "\<not> concurrent Bets_get_tennis_data Rapid_get_tennis_data (cycle_events env s) \<and>
   (Invoked Rapid_get_tennis_data \<in> set (cycle_events env s) \<longrightarrow>
      Returned Bets_get_tennis_data
        \<in> set (before (Invoked Rapid_get_tennis_data) (cycle_events env s))) \<and>
   (Invoked Merge \<in> set (cycle_events env s) \<longrightarrow>
      Returned Bets_get_tennis_data \<in> set (before (Invoked Merge) (cycle_events env s)) \<and>
      Returned Rapid_get_tennis_data \<in> set (before (Invoked Merge) (cycle_events env s))) \<and>
   (isl (bets_get_tennis_data env) \<longrightarrow>
      Invoked Rapid_get_tennis_data \<notin> set (cycle_events env s))"
  unfolding cycle_events_eq
  by (simp add: concurrent_def before_def handler_events_in_flight handler_events_calls
      split: sum.splits)

theorem fetches_run_one_after_the_other_witness:
  "Invoked Rapid_get_tennis_data \<in> set (cycle_events ok_env old_state) \<and>
   Returned Bets_get_tennis_data
     \<in> set (before (Invoked Rapid_get_tennis_data) (cycle_events ok_env old_state)) \<and>
   Invoked Merge \<in> set (cycle_events ok_env old_state) \<and>
   Returned Bets_get_tennis_data \<in> set (before (Invoked Merge) (cycle_events ok_env old_state)) \<and>
   Returned Rapid_get_tennis_data \<in> set (before (Invoked Merge) (cycle_events ok_env old_state)) \<and>
   isl (bets_get_tennis_data partial_env) \<and>
   Invoked Rapid_get_tennis_data \<notin> set (cycle_events partial_env old_state)"
proof -
  have rapid: "Invoked Rapid_get_tennis_data \<in> set (cycle_events ok_env old_state)"
    by (simp add: ok_env_events)
  have merging: "Invoked Merge \<in> set (cycle_events ok_env old_state)"
    by (simp add: ok_env_events)
  have bets_failed: "isl (bets_get_tennis_data partial_env)"
    by (simp add: partial_env_def ok_env_def)
  from fetches_run_one_after_the_other [of ok_env old_state]
    fetches_run_one_after_the_other [of partial_env old_state] rapid merging bets_failed
  show ?thesis by blast
qed

text \<open>
  The claim as stated fails: in a cycle whose calls all return, BetsAPI's fetch has
  returned before RapidAPI's is invoked; and in a cycle whose BetsAPI fetch raises,
  RapidAPI's fetch is not invoked at all.
\<close>

theorem fetches_are_not_concurrent:
  "cycle_events ok_env old_state =
     [Cycle_start, Invoked BetsapiPrematch, Returned BetsapiPrematch,
      Invoked RapidInplayOddsFetcher, Returned RapidInplayOddsFetcher,
      Invoked Bets_get_tennis_data, Returned Bets_get_tennis_data,
      Invoked Rapid_get_tennis_data, Returned Rapid_get_tennis_data,
      Invoked TennisMerger, Returned TennisMerger, Invoked Merge, Returned Merge,
      Store_write [entity_of ''A'' 7, entity_of ''B'' 1, entity_of ''B'' 2, entity_of ''B'' 3],
      Slept 60] \<and>
   \<not> concurrent Bets_get_tennis_data Rapid_get_tennis_data (cycle_events ok_env old_state) \<and>
   isl (bets_get_tennis_data partial_env) \<and>
   Invoked Rapid_get_tennis_data \<notin> set (cycle_events partial_env old_state)"
proof -
  have sequential: "\<not> concurrent Bets_get_tennis_data Rapid_get_tennis_data
      (cycle_events ok_env old_state)"
    by (simp add: ok_env_events concurrent_def)
  have bets_failed: "isl (bets_get_tennis_data partial_env)"
    by (simp add: partial_env_def ok_env_def)
  have not_invoked: "Invoked Rapid_get_tennis_data \<notin> set (cycle_events partial_env old_state)"
    by (simp add: partial_env_events)
  from ok_env_events [of old_state] sequential bets_failed not_invoked show ?thesis
    by blast
qed

text \<open>
  C9. Before the first publication the all-matches query returns a well-formed response
  whose \<open>matches\<close> field is the empty list, together with a timestamp: in the initial
  state, at every moment of a run from the initial state up to which the global has not
  been assigned, and after a run in which it never was.
\<close>

theorem empty_before_first_publication:
  "get_tennis_matches now (tennis_matches initial_state) =
     PyDict [(''timestamp'', PyStr (isoformat now)), (''matches'', PyList [])] \<and>
   (writes (map fst (take k (loop_history envs initial_state))) = [] \<longrightarrow>
      (\<forall>(ev, v) \<in> set (take k (loop_history envs initial_state)).
         get_tennis_matches now v =
           PyDict [(''timestamp'', PyStr (isoformat now)), (''matches'', PyList [])])) \<and>
   (writes (loop_events envs initial_state) = [] \<longrightarrow>
      get_tennis_matches now (tennis_matches (snd (fetch_tennis_data envs initial_state))) =
        PyDict [(''timestamp'', PyStr (isoformat now)), (''matches'', PyList [])])"
proof -
  have empty: "get_tennis_matches now [] =
      PyDict [(''timestamp'', PyStr (isoformat now)), (''matches'', PyList [])]"
    by (simp add: get_tennis_matches_def)
  have start: "tennis_matches initial_state = []"
    by (simp add: initial_state_def)
  have chg: "changes_only_by_write [] (loop_history envs initial_state)"
    using loop_changes_only_by_write [of initial_state envs] by (simp add: start)
  have prefix: "writes (map fst (take k (loop_history envs initial_state))) = [] \<longrightarrow>
      (\<forall>(ev, v) \<in> set (take k (loop_history envs initial_state)). v = [])"
    using unwritten_prefix [OF chg, of k] by auto
  have whole: "writes (loop_events envs initial_state) = [] \<longrightarrow>
      tennis_matches (snd (fetch_tennis_data envs initial_state)) = []"
  proof
    assume nw: "writes (loop_events envs initial_state) = []"
    show "tennis_matches (snd (fetch_tennis_data envs initial_state)) = []"
    proof (cases "envs = []")
      case True
      then show ?thesis by (simp add: start)
    next
      case False
      let ?h = "loop_history envs initial_state"
      from nw have "writes (map fst (take (length ?h) ?h)) = []"
        by (simp add: loop_events_def)
      moreover from False have "(fst (last ?h), snd (last ?h)) \<in> set (take (length ?h) ?h)"
        by (simp add: loop_history_nonempty)
      ultimately have "snd (last ?h) = []"
        by (rule unwritten_prefix [OF chg])
      with False show ?thesis by (simp add: loop_last_tag)
    qed
  qed
  from empty start prefix whole show ?thesis by auto
qed

theorem empty_before_first_publication_witness:
  "writes (map fst (take 9 (loop_history [partial_env, ok_env] initial_state))) = [] \<and>
   length (take 9 (loop_history [partial_env, ok_env] initial_state)) = 9 \<and>
   list_all (\<lambda>(ev, v). get_tennis_matches noon v =
       PyDict [(''timestamp'', PyStr ''2024-06-01T12:00:00''), (''matches'', PyList [])])
     (take 9 (loop_history [partial_env, ok_env] initial_state)) \<and>
   writes (loop_events [partial_env] initial_state) = [] \<and>
   get_tennis_matches noon (tennis_matches (snd (fetch_tennis_data [partial_env] initial_state))) =
     PyDict [(''timestamp'', PyStr ''2024-06-01T12:00:00''), (''matches'', PyList [])]"
proof -
  have "length (map fst (cycle_history partial_env initial_state)) = 9"
    using partial_env_events [of initial_state] by (simp add: cycle_events_def)
  then have nine_events: "length (cycle_history partial_env initial_state) = 9"
    by simp
  then have first_cycle: "take 9 (loop_history [partial_env, ok_env] initial_state) =
      cycle_history partial_env initial_state"
    by (simp add: loop_history_Cons concrete_returns)
  have quiet: "writes (map fst (cycle_history partial_env initial_state)) = []"
    using partial_env_events [of initial_state] by (simp add: cycle_events_def)
  from first_cycle quiet
  have unwritten: "writes (map fst (take 9 (loop_history [partial_env, ok_env] initial_state))) = []"
    by simp
  from first_cycle nine_events
  have nine: "length (take 9 (loop_history [partial_env, ok_env] initial_state)) = 9"
    by simp
  have failed: "writes (loop_events [partial_env] initial_state) = []"
    using quiet
    by (simp add: loop_events_def loop_history_Cons loop_history_Nil concrete_returns)
  have at_noon: "isoformat noon = ''2024-06-01T12:00:00''"
    by code_simp
  from empty_before_first_publication [of noon 9 "[partial_env, ok_env]"] unwritten
  have "list_all (\<lambda>(ev, v). get_tennis_matches noon v =
       PyDict [(''timestamp'', PyStr ''2024-06-01T12:00:00''), (''matches'', PyList [])])
     (take 9 (loop_history [partial_env, ok_env] initial_state))"
    unfolding list_all_iff at_noon by blast
  moreover from empty_before_first_publication [of noon 0 "[partial_env]"] failed
  have "get_tennis_matches noon
      (tennis_matches (snd (fetch_tennis_data [partial_env] initial_state))) =
     PyDict [(''timestamp'', PyStr ''2024-06-01T12:00:00''), (''matches'', PyList [])]"
    unfolding at_noon by blast
  ultimately show ?thesis using unwritten nine failed by blast
qed

end
